theory Spec2Isabelle
  imports Complex_Main "HOL-Library.Sublist"
begin

section \<open>Python values shared by the notebooks\<close>

text \<open>
  The notebooks are Python. An exception is a value of \<open>error\<close>; a function that may raise
  returns \<open>error + 'a\<close>, with \<open>Inl\<close> for the exception. \<open>LibraryError\<close> stands for whatever
  the pre-trained-model, tokenizer or dataset library raises; its text is the library's.
\<close>

datatype error =
    AssertionError
  | UnboundLocalError
  | IndexError
  | TypeError
  | ValueError
  | LibraryError string

text \<open>
  \<open>str.lstrip(chars)\<close> and \<open>str.rstrip(chars)\<close>: the argument is a set of characters, and
  every leading (trailing) character that belongs to it is removed.
\<close>

definition py_lstrip :: "string \<Rightarrow> string \<Rightarrow> string" where
  "py_lstrip s chars = dropWhile (\<lambda>c. c \<in> set chars) s"

definition py_rstrip :: "string \<Rightarrow> string \<Rightarrow> string" where
  "py_rstrip s chars = rev (dropWhile (\<lambda>c. c \<in> set chars) (rev s))"

text \<open>
  \<open>t[i]\<close> for a Python integer \<open>i\<close>: positions \<open>0\<close> to \<open>len - 1\<close> are read from the
  front, positions \<open>-len\<close> to \<open>-1\<close> from the back, and every other position raises
  \<open>IndexError\<close>.
\<close>

definition py_index :: "'a list \<Rightarrow> int \<Rightarrow> error + 'a" where
  "py_index t i =
     (if 0 \<le> i \<and> i < int (length t) then Inr (t ! nat i)
      else if - int (length t) \<le> i \<and> i < 0 then Inr (t ! nat (int (length t) + i))
      else Inl IndexError)"

section \<open>Notebook 2a: masked language modeling\<close>

subsection \<open>The loading cell\<close>


subsection \<open>\<open>predict_word\<close>\<close>

text \<open>
  The tokenizer and the model are arguments of \<open>predict_word\<close>; they belong to the
  pre-trained-model library. \<open>forward lib ids segs\<close> is
  \<open>model(tokens_tensor, token_type_ids=segments_tensors)[0][0]\<close>: one row of vocabulary
  logits for each position of the single input sequence.
\<close>

record mlm_lib =
  tokenize :: "string \<Rightarrow> error + string list"
  convert_tokens_to_ids :: "string list \<Rightarrow> error + int list"
  convert_ids_to_tokens :: "int list \<Rightarrow> error + string list"
  forward :: "int list \<Rightarrow> int list \<Rightarrow> error + real list list"

text \<open>
  \<^verbatim>\<open>text = '[CLS] '+ text.lstrip('[CLS] ').rstrip(' [SEP]')+' [SEP]'\<close>
\<close>

definition prepare_text :: "string \<Rightarrow> string" where
  "prepare_text text =
     ''[CLS] '' @ py_rstrip (py_lstrip text ''[CLS] '') '' [SEP]'' @ '' [SEP]''"

text \<open>
  \<^verbatim>\<open>
  masked_index = -1
  for i, token in enumerate(tokenized_text):
    if token=='[MASK]':
      masked_index = i
      break
  assert i>=0
  \<close>
  The loop state is the pair of \<open>masked_index\<close> and the loop variable \<open>i\<close>, which is
  unbound (\<open>None\<close>) until the first iteration assigns it. \<open>k\<close> is the counter of
  \<open>enumerate\<close>.
\<close>

fun mask_loop :: "string list \<Rightarrow> int \<Rightarrow> int \<times> int option \<Rightarrow> int \<times> int option" where
  "mask_loop [] k st = st"
| "mask_loop (token # rest) k (masked_index, i) =
     (if token = ''[MASK]'' then (k, Some k)
      else mask_loop rest (k + 1) (masked_index, Some k))"

definition find_masked_index :: "string list \<Rightarrow> error + int" where
  "find_masked_index tokenized_text =
     (case mask_loop tokenized_text 0 (- 1, None) of
        (masked_index, None) \<Rightarrow> Inl UnboundLocalError
      | (masked_index, Some i) \<Rightarrow> if i \<ge> 0 then Inr masked_index else Inl AssertionError)"

text \<open>
  \<open>torch.argsort(-row)\<close>: the vocabulary indices by descending logit. The model breaks
  ties by position; the library leaves their order open.
\<close>

definition argsort_desc :: "real list \<Rightarrow> nat list" where
  "argsort_desc row = map snd (sort_key (\<lambda>(v, i). - v) (zip row [0..<length row]))"

definition softmax :: "real list \<Rightarrow> real list" where
  "softmax xs = map (\<lambda>x. exp x / sum_list (map exp xs)) xs"

text \<open>\<open>round(p, 4)\<close>, on real numbers.\<close>

definition round4 :: "real \<Rightarrow> real" where
  "round4 p = of_int (round (p * 10000)) / 10000"

text \<open>
  The body of \<open>predict_word\<close>. The parameter \<open>topn\<close> is not read anywhere. The ranking
  \<open>predicted_inds\<close>, \<open>predicted_probs\<close>, \<open>predicted_tokens\<close> over the whole vocabulary is
  computed, and the function ends in \<open>pass\<close>: it returns Python's \<open>None\<close>, here \<open>Inr None\<close>.
  The \<open>print\<close> of the tensor shape is output only and is left out.
\<close>

definition predict_word :: "mlm_lib \<Rightarrow> string \<Rightarrow> int \<Rightarrow> error + (string \<times> real) list option" where
  "predict_word lib text topn =
     (case tokenize lib (prepare_text text) of
        Inl e \<Rightarrow> Inl e
      | Inr tokenized_text \<Rightarrow>
     (case find_masked_index tokenized_text of
        Inl e \<Rightarrow> Inl e
      | Inr masked_index \<Rightarrow>
     (case convert_tokens_to_ids lib tokenized_text of
        Inl e \<Rightarrow> Inl e
      | Inr indexed_tokens \<Rightarrow>
     (let segments_ids = replicate (length tokenized_text) 0 in
      case forward lib indexed_tokens segments_ids of
        Inl e \<Rightarrow> Inl e
      | Inr predictions \<Rightarrow>
     (case py_index predictions masked_index of
        Inl e \<Rightarrow> Inl e
      | Inr row \<Rightarrow>
     (let predicted_inds = argsort_desc row;
          predicted_probs = map (\<lambda>ind. round4 (softmax row ! ind)) predicted_inds
      in case convert_ids_to_tokens lib (map int predicted_inds) of
        Inl e \<Rightarrow> Inl e
      | Inr predicted_tokens \<Rightarrow> Inr None))))))"

section \<open>Notebook 2b: next sentence prediction\<close>

text \<open>
  The tokenizer and the model are arguments of \<open>predict_nsp\<close>. \<open>encode_pair lib s1 s2\<close> is
  \<open>tokenizer(sentence1, sentence2, return_tensors='pt', padding=True, truncation=True)\<close>
  moved to the model's device, and \<open>nsp_forward lib inputs\<close> is \<open>model(**inputs).logits\<close>:
  one row of logits for each sequence of the batch.
\<close>

record 'enc nsp_lib =
  encode_pair :: "string \<Rightarrow> string \<Rightarrow> error + 'enc"
  nsp_forward :: "'enc \<Rightarrow> error + real list list"

text \<open>
  \<open>t[:, 0]\<close> on a two-dimensional tensor: the first entry of every row; a tensor whose
  rows are empty has no column 0.
\<close>

definition column0 :: "real list list \<Rightarrow> error + real list" where
  "column0 rows = (if [] \<in> set rows then Inl IndexError else Inr (map hd rows))"

text \<open>
  \<open>t.item()\<close>: the value of a tensor that has exactly one element; any other tensor
  raises (a \<open>ValueError\<close> or a \<open>RuntimeError\<close>, by the version of the library).
\<close>

definition item :: "real list \<Rightarrow> error + real" where
  "item t = (case t of [x] \<Rightarrow> Inr x | _ \<Rightarrow> Inl ValueError)"

text \<open>
  \<^verbatim>\<open>
  outputs = model(**inputs)
  probability = torch.softmax(outputs.logits, dim=1)[:, 0].item()
  return probability
  \<close>
\<close>

definition predict_nsp :: "'enc nsp_lib \<Rightarrow> string \<Rightarrow> string \<Rightarrow> error + real" where
  "predict_nsp lib sentence1 sentence2 =
     (case encode_pair lib sentence1 sentence2 of
        Inl e \<Rightarrow> Inl e
      | Inr inputs \<Rightarrow>
     (case nsp_forward lib inputs of
        Inl e \<Rightarrow> Inl e
      | Inr logits \<Rightarrow>
     (case column0 (map softmax logits) of
        Inl e \<Rightarrow> Inl e
      | Inr probabilities \<Rightarrow> item probabilities)))"

section \<open>Notebook 2c: the metric callback of the fine-tuning pipeline\<close>

text \<open>
  \<open>np.argmax\<close> of one row: the first index that holds the maximum; an empty row raises
  \<open>ValueError\<close>. \<open>argmax_from rest k best bi\<close> scans \<open>rest\<close>, whose first element has
  index \<open>k\<close>, with the maximum so far \<open>best\<close> found at index \<open>bi\<close>.
\<close>

fun argmax_from :: "real list \<Rightarrow> nat \<Rightarrow> real \<Rightarrow> nat \<Rightarrow> nat" where
  "argmax_from [] k best bi = bi"
| "argmax_from (x # xs) k best bi =
     (if best < x then argmax_from xs (k + 1) x k else argmax_from xs (k + 1) best bi)"

definition np_argmax :: "real list \<Rightarrow> error + nat" where
  "np_argmax row = (case row of [] \<Rightarrow> Inl ValueError | x # xs \<Rightarrow> Inr (argmax_from xs 1 x 0))"

text \<open>\<open>np.argmax(logits, axis=-1)\<close> on a two-dimensional array: the argmax of every row.\<close>

fun argmax_rows :: "real list list \<Rightarrow> error + nat list" where
  "argmax_rows [] = Inr []"
| "argmax_rows (row # rows) =
     (case np_argmax row of
        Inl e \<Rightarrow> Inl e
      | Inr p \<Rightarrow>
     (case argmax_rows rows of
        Inl e \<Rightarrow> Inl e
      | Inr ps \<Rightarrow> Inr (p # ps)))"

text \<open>
  Modelled from the spec: \<open>metric = load_metric('accuracy')\<close> is an object of the
  evaluation library, whose code is not part of the repository. By the spec it is the
  deterministic exact-match metric: the fraction of positions where prediction and
  reference are equal. Arrays of different lengths are rejected; for empty arrays the
  fraction is undefined, which the model reports as an error as well.
\<close>

definition accuracy_metric :: "int list \<Rightarrow> int list \<Rightarrow> error + real" where
  "accuracy_metric predictions references =
     (if length predictions \<noteq> length references then Inl ValueError
      else if references = [] then Inl ValueError
      else Inr (real (length (filter (\<lambda>(p, r). p = r) (zip predictions references)))
                / real (length references)))"

text \<open>
  \<^verbatim>\<open>
  def compute_metrics(eval_pred):
      logits, labels = eval_pred
      predictions = np.argmax(logits, axis=-1)
      accuracy = metric.compute(predictions=predictions, references=labels)
      return accuracy
  \<close>
  The returned dictionary has the one key \<open>accuracy\<close>; the model returns its value.
\<close>

definition compute_metrics :: "real list list \<times> int list \<Rightarrow> error + real" where
  "compute_metrics eval_pred =
     (case eval_pred of (logits, labels) \<Rightarrow>
     (case argmax_rows logits of
        Inl e \<Rightarrow> Inl e
      | Inr predictions \<Rightarrow> accuracy_metric (map int predictions) labels))"

section \<open>The tokenization-comparison notebook\<close>

text \<open>
  \<open>str.lower()\<close> and \<open>' '.join(tokens)\<close>. A \<open>char\<close> is a byte, so \<open>py_lower\<close> maps the
  letters \<open>A\<close> to \<open>Z\<close> and leaves every other byte.
\<close>

definition lower_char :: "char \<Rightarrow> char" where
  "lower_char c =
     (case map_of (zip ''ABCDEFGHIJKLMNOPQRSTUVWXYZ'' ''abcdefghijklmnopqrstuvwxyz'') c of
        None \<Rightarrow> c
      | Some l \<Rightarrow> l)"

definition py_lower :: "string \<Rightarrow> string" where
  "py_lower s = map lower_char s"

fun join_spaces :: "string list \<Rightarrow> string" where
  "join_spaces [] = []"
| "join_spaces [t] = t"
| "join_spaces (t # ts) = t @ '' '' @ join_spaces ts"




text \<open>
  \<^verbatim>\<open>[' '.join(tokenizer(text.lower())) for text in X]\<close>
  The argument \<open>tokenizer\<close> may be \<open>None\<close> (the notebook passes \<open>None\<close> for the
  character level); calling \<open>None\<close> raises \<open>TypeError\<close>, at the first text of the list.
\<close>

fun tokenize_all :: "(string \<Rightarrow> error + string list) option \<Rightarrow> string list \<Rightarrow> error + string list" where
  "tokenize_all tokenizer [] = Inr []"
| "tokenize_all tokenizer (text # rest) =
     (case (case tokenizer of None \<Rightarrow> Inl TypeError | Some f \<Rightarrow> f (py_lower text)) of
        Inl e \<Rightarrow> Inl e
      | Inr tokens \<Rightarrow>
     (case tokenize_all tokenizer rest of
        Inl e \<Rightarrow> Inl e
      | Inr joined \<Rightarrow> Inr (join_spaces tokens # joined)))"



section \<open>Top-level cells\<close>

subsection \<open>The loading cells of notebooks 2a and 2b\<close>




subsection \<open>The dataset cells of notebook 2c\<close>



subsection \<open>Statements in a row\<close>


section \<open>Stand-ins for the libraries\<close>

text \<open>
  The pre-trained models and the tokenizers are opaque. To run the notebooks' functions
  on concrete inputs, the following small stand-ins take their place.
\<close>


text \<open>
  A tokenizer that splits a text at its spaces, from left to right (\<open>word\<close> holds the
  characters of the current word, last one first), with token ids and a model that
  depend on the tokens' lengths only. The texts tokenized with it below are common
  lower-case words and bracketed special tokens, separated by single spaces.
\<close>

fun split_words :: "string \<Rightarrow> string \<Rightarrow> string list" where
  "split_words word [] = (if word = [] then [] else [rev word])"
| "split_words word (c # cs) =
     (if c = CHR '' '' then (if word = [] then split_words [] cs else rev word # split_words [] cs)
      else split_words (c # word) cs)"

definition whitespace_mlm_lib :: mlm_lib where
  "whitespace_mlm_lib =
     \<lparr>tokenize = (\<lambda>text. Inr (split_words [] text)),
      convert_tokens_to_ids = (\<lambda>tokens. Inr (map (\<lambda>t. int (length t)) tokens)),
      convert_ids_to_tokens = (\<lambda>ids. Inr (map (\<lambda>i. ''token'') ids)),
      forward = (\<lambda>ids segs. Inr (map (\<lambda>i. [0, real_of_int i, 1]) ids))\<rparr>"

text \<open>
  A sentence-pair tokenizer that keeps the two sentences in their order, with a model
  whose two logits are the lengths of the first and of the second sentence.
\<close>

definition length_nsp_lib :: "(string \<times> string) nsp_lib" where
  "length_nsp_lib =
     \<lparr>encode_pair = (\<lambda>s1 s2. Inr (s1, s2)),
      nsp_forward = (\<lambda>inputs. Inr [[real (length (fst inputs)), real (length (snd inputs))]])\<rparr>"



section \<open>The guard of \<open>predict_word\<close>\<close>

text \<open>What the loop leaves behind when a mask token is there: the position of the first one.\<close>

lemma mask_loop_found:
  "''[MASK]'' \<in> set toks \<Longrightarrow>
   mask_loop toks k st =
     (k + int (length (takeWhile (\<lambda>t. t \<noteq> ''[MASK]'') toks)),
      Some (k + int (length (takeWhile (\<lambda>t. t \<noteq> ''[MASK]'') toks))))"
proof (induction toks arbitrary: k st)
  case Nil
  then show ?case by simp
next
  case (Cons t ts)
  obtain m i where st: "st = (m, i)" by (cases st)
  show ?case
  proof (cases "t = ''[MASK]''")
    case True
    then show ?thesis by (simp add: st)
  next
    case False
    with Cons.prems have "''[MASK]'' \<in> set ts" by simp
    from Cons.IH [OF this, of "k + 1" "(m, Some k)"] False show ?thesis
      by (simp add: st)
  qed
qed

text \<open>Without a mask token the loop runs to the end: \<open>masked_index\<close> is untouched.\<close>

lemma mask_loop_absent:
  "''[MASK]'' \<notin> set toks \<Longrightarrow> toks \<noteq> [] \<Longrightarrow>
   mask_loop toks k (m, i) = (m, Some (k + int (length toks) - 1))"
proof (induction toks arbitrary: k i)
  case Nil
  then show ?case by simp
next
  case (Cons t ts)
  show ?case
  proof (cases ts)
    case Nil
    with Cons.prems show ?thesis by simp
  next
    case (Cons u us)
    with Cons.prems Cons.IH [of "k + 1" "Some k"] show ?thesis by auto
  qed
qed

lemma mask_loop_counter_nonneg:
  "0 \<le> k \<Longrightarrow> mask_loop toks k st = (m, Some i) \<Longrightarrow> (\<forall>j. snd st = Some j \<longrightarrow> 0 \<le> j) \<Longrightarrow> 0 \<le> i"
proof (induction toks arbitrary: k st)
  case Nil
  then show ?case by auto
next
  case (Cons t ts)
  obtain m0 i0 where st: "st = (m0, i0)" by (cases st)
  show ?case
  proof (cases "t = ''[MASK]''")
    case True
    with Cons.prems show ?thesis by (simp add: st)
  next
    case False
    with Cons.prems have "mask_loop ts (k + 1) (m0, Some k) = (m, Some i)" by (simp add: st)
    from Cons.IH [OF _ this] Cons.prems(1) show ?thesis by simp
  qed
qed

text \<open>The assertion \<open>i>=0\<close> holds whenever \<open>i\<close> is bound: it never raises.\<close>

lemma assertion_never_raises: "find_masked_index toks \<noteq> Inl AssertionError"
  using mask_loop_counter_nonneg [of 0 toks "(- 1, None)"]
  by (auto simp: find_masked_index_def split: prod.splits option.splits)

lemma no_mask_passes:
  "toks \<noteq> [] \<Longrightarrow> ''[MASK]'' \<notin> set toks \<Longrightarrow> find_masked_index toks = Inr (- 1)"
  by (simp add: find_masked_index_def mask_loop_absent)

text \<open>
  C1. The claim: the assertion raises exactly when the tokenized input has no
  \<open>[MASK]\<close> token. The code asserts on the loop variable \<open>i\<close>, not on \<open>masked_index\<close>:
  for the tokens of \<open>hello world\<close>, which have no mask token, the guard passes with
  \<open>masked_index = -1\<close>, and \<open>predict_word\<close> runs to its end without an exception.
\<close>

theorem C1_guard_passes_without_mask:
  "find_masked_index [''[CLS]'', ''hello'', ''world'', ''[SEP]''] = Inr (- 1) \<and>
   predict_word whitespace_mlm_lib ''hello world'' 10 = Inr None"
  by (simp add: predict_word_def whitespace_mlm_lib_def prepare_text_def py_lstrip_def
      py_rstrip_def find_masked_index_def py_index_def)

text \<open>
  C2. The claim: \<open>predict_word\<close> returns a list of \<open>topn\<close> pairs of token and
  probability, sorted by descending probability. The code ends in \<open>pass\<close>: whatever the
  tokenizer, the model, the text and \<open>topn\<close>, it never returns a list; on
  \<open>the boy [MASK] to the school\<close> it returns \<open>None\<close>.
\<close>

theorem C2_predict_word_returns_no_list:
  "predict_word lib text topn \<noteq> Inr (Some ranked) \<and>
   predict_word whitespace_mlm_lib ''the boy [MASK] to the school'' 10 = Inr None"
proof -
  have "predict_word lib text topn \<noteq> Inr (Some ranked)"
    by (simp add: predict_word_def Let_def split: sum.splits)
  moreover have "predict_word whitespace_mlm_lib ''the boy [MASK] to the school'' 10 = Inr None"
    by (simp add: predict_word_def whitespace_mlm_lib_def prepare_text_def py_lstrip_def
        py_rstrip_def find_masked_index_def py_index_def)
  ultimately show ?thesis by simp
qed

text \<open>
  C3, as the claim states it, fails: a tokenized input with two mask tokens passes the
  guard, which selects the first of them, and \<open>predict_word\<close> runs to its end.
\<close>

theorem C3_two_masks_accepted:
  "count_list [''[CLS]'', ''my'', ''[MASK]'', ''is'', ''[MASK]'', ''today'', ''[SEP]''] ''[MASK]'' = 2 \<and>
   find_masked_index [''[CLS]'', ''my'', ''[MASK]'', ''is'', ''[MASK]'', ''today'', ''[SEP]''] = Inr 2 \<and>
   predict_word whitespace_mlm_lib ''my [MASK] is [MASK] today'' 10 = Inr None"
  by (simp add: predict_word_def whitespace_mlm_lib_def prepare_text_def py_lstrip_def
      py_rstrip_def find_masked_index_def py_index_def)

text \<open>
  C3, amended: for every tokenized input that contains at least one mask token, one or
  more, the guard passes and \<open>masked_index\<close> is the position of the first mask token.
\<close>

theorem C3_first_mask_selected:
  "''[MASK]'' \<in> set toks \<Longrightarrow>
   find_masked_index toks = Inr (int (length (takeWhile (\<lambda>t. t \<noteq> ''[MASK]'') toks)))"
  by (simp add: find_masked_index_def mask_loop_found)

theorem C3_first_mask_selected_witness:
  "''[MASK]'' \<in> set [''[CLS]'', ''the'', ''[MASK]'', ''saw'', ''[MASK]'', ''[SEP]''] \<and>
   find_masked_index [''[CLS]'', ''the'', ''[MASK]'', ''saw'', ''[MASK]'', ''[SEP]''] = Inr 2"
  using C3_first_mask_selected [of "[''[CLS]'', ''the'', ''[MASK]'', ''saw'', ''[MASK]'', ''[SEP]'']"]
  by simp

section \<open>The text preparation of \<open>predict_word\<close>\<close>

text \<open>
  C9. \<open>lstrip\<close> and \<open>rstrip\<close> remove characters of a set, not a prefix or a suffix:
  \<open>Cats sleep\<close> neither begins with \<open>[CLS]\<close> nor ends with \<open>[SEP]\<close>, and its first letter
  is removed. So there is a text without the two markers whose prepared form is not
  the text between the markers.
\<close>

theorem C9_strip_removes_sentence_characters:
  "prepare_text ''Cats sleep'' = ''[CLS] ats sleep [SEP]'' \<and>
   (\<exists>text. \<not> prefix ''[CLS]'' text \<and> \<not> suffix ''[SEP]'' text \<and>
      prepare_text text \<noteq> ''[CLS] '' @ text @ '' [SEP]'')"
proof -
  have eq: "prepare_text ''Cats sleep'' = ''[CLS] ats sleep [SEP]''"
    by (simp add: prepare_text_def py_lstrip_def py_rstrip_def)
  have "\<not> prefix ''[CLS]'' ''Cats sleep'' \<and> \<not> suffix ''[SEP]'' ''Cats sleep'' \<and>
      prepare_text ''Cats sleep'' \<noteq> ''[CLS] '' @ ''Cats sleep'' @ '' [SEP]''"
    by (simp add: eq suffix_def)
  then have "\<exists>text. \<not> prefix ''[CLS]'' text \<and> \<not> suffix ''[SEP]'' text \<and>
      prepare_text text \<noteq> ''[CLS] '' @ text @ '' [SEP]''" by blast
  with eq show ?thesis by simp
qed

section \<open>Softmax and \<open>predict_nsp\<close>\<close>

lemma exp_le_sum_exp: "x \<in> set xs \<Longrightarrow> exp x \<le> sum_list (map exp xs)" for x :: real
proof (induction xs)
  case Nil
  then show ?case by simp
next
  case (Cons y ys)
  have nonneg: "0 \<le> sum_list (map exp ys)" by (rule sum_list_nonneg) auto
  show ?case
  proof (cases "x = y")
    case True
    with nonneg show ?thesis by simp
  next
    case False
    with Cons have "exp x \<le> sum_list (map exp ys)" by simp
    then show ?thesis by (simp add: add_increasing)
  qed
qed

text \<open>Every component of a softmax is a probability.\<close>

lemma softmax_range: "p \<in> set (softmax xs) \<Longrightarrow> 0 \<le> p \<and> p \<le> 1"
proof -
  assume "p \<in> set (softmax xs)"
  then obtain x where x: "x \<in> set xs" and p: "p = exp x / sum_list (map exp xs)"
    by (auto simp: softmax_def)
  have le: "exp x \<le> sum_list (map exp xs)" using x by (rule exp_le_sum_exp)
  have pos: "0 < sum_list (map exp xs)" using le exp_gt_zero [of x] by linarith
  from le pos show ?thesis by (simp add: p)
qed

lemma softmax_nonempty: "xs \<noteq> [] \<Longrightarrow> softmax xs \<noteq> []"
  by (simp add: softmax_def)

text \<open>
  When \<open>predict_nsp\<close> returns a value, the library calls succeeded, the batch had one
  row of logits, and the value is the first component of that row's softmax.
\<close>

lemma predict_nsp_value:
  assumes "predict_nsp lib s1 s2 = Inr p"
  shows "\<exists>inputs row. encode_pair lib s1 s2 = Inr inputs \<and> nsp_forward lib inputs = Inr [row]
           \<and> row \<noteq> [] \<and> p = hd (softmax row)"
proof -
  from assms obtain inputs logits col where
    enc: "encode_pair lib s1 s2 = Inr inputs" and
    fwd: "nsp_forward lib inputs = Inr logits" and
    col: "column0 (map softmax logits) = Inr col" and
    it: "item col = Inr p"
    by (auto simp: predict_nsp_def split: sum.splits)
  from it have colp: "col = [p]"
    by (auto simp: item_def split: list.splits)
  from col colp have ne: "[] \<notin> set (map softmax logits)" and mp: "map hd (map softmax logits) = [p]"
    by (auto simp: column0_def split: if_splits)
  from mp obtain row where lg: "logits = [row]" and hp: "p = hd (softmax row)"
    by (cases logits) auto
  from ne lg have "softmax row \<noteq> []" by auto
  then have "row \<noteq> []" by (auto simp: softmax_def)
  with enc fwd lg hp show ?thesis by blast
qed

lemma predict_nsp_range:
  assumes "predict_nsp lib s1 s2 = Inr p"
  shows "0 \<le> p \<and> p \<le> 1"
proof -
  from predict_nsp_value [OF assms] obtain row where "row \<noteq> []" and "p = hd (softmax row)"
    by blast
  then have "p \<in> set (softmax row)" by (simp add: softmax_nonempty)
  then show ?thesis by (rule softmax_range)
qed

lemma predict_nsp_two_logits:
  assumes "encode_pair lib s1 s2 = Inr inputs" and "nsp_forward lib inputs = Inr [[l0, l1]]"
  shows "predict_nsp lib s1 s2 = Inr (exp l0 / (exp l0 + exp l1))"
  using assms by (simp add: predict_nsp_def column0_def softmax_def item_def)

text \<open>
  C4. For every pair of sentences: when the tokenizer and the model succeed and the
  model returns its two logits \<open>l0\<close>, \<open>l1\<close>, \<open>predict_nsp\<close> returns the first component
  of their softmax, \<open>exp l0 / (exp l0 + exp l1)\<close>; and every value \<open>predict_nsp\<close> returns
  lies in the interval from 0 to 1. Logits are real numbers here.
\<close>

theorem C4_predict_nsp_first_softmax_component:
  "(encode_pair lib s1 s2 = Inr inputs \<and> nsp_forward lib inputs = Inr [[l0, l1]] \<longrightarrow>
      predict_nsp lib s1 s2 = Inr (softmax [l0, l1] ! 0) \<and>
      softmax [l0, l1] ! 0 = exp l0 / (exp l0 + exp l1)) \<and>
   (predict_nsp lib s1 s2 = Inr p \<longrightarrow> 0 \<le> p \<and> p \<le> 1)"
  using predict_nsp_range [of lib s1 s2 p] predict_nsp_two_logits [of lib s1 s2 inputs l0 l1]
  by (simp add: softmax_def)

theorem C4_predict_nsp_first_softmax_component_witness:
  "encode_pair length_nsp_lib ''ab'' ''cd'' = Inr (''ab'', ''cd'') \<and>
   nsp_forward length_nsp_lib (''ab'', ''cd'') = Inr [[2, 2]] \<and>
   predict_nsp length_nsp_lib ''ab'' ''cd'' = Inr (softmax [2, 2] ! 0) \<and>
   predict_nsp length_nsp_lib ''ab'' ''cd'' = Inr (1 / 2) \<and>
   (0::real) \<le> 1 / 2 \<and> (1::real) / 2 \<le> 1"
  using C4_predict_nsp_first_softmax_component
    [of length_nsp_lib "''ab''" "''cd''" "(''ab'', ''cd'')" 2 2 "1 / 2"]
  by (simp add: length_nsp_lib_def)

text \<open>
  What \<open>predict_nsp\<close> itself contributes to the order of the two sentences: it hands them
  to the tokenizer as they come and returns the first softmax component, which is the
  same for two pairs of logits exactly when their differences are the same. Whether
  swapping the sentences changes the result is therefore decided by the logits of the
  pre-trained model alone.
\<close>

lemma first_softmax_component_eq_iff:
  "exp l0 / (exp l0 + exp l1) = exp m0 / (exp m0 + exp m1) \<longleftrightarrow> l0 - l1 = m0 - m1"
  for l0 l1 m0 m1 :: real
proof -
  have pos1: "exp l0 + exp l1 \<noteq> 0"
    using exp_gt_zero [of l0] exp_gt_zero [of l1] by linarith
  have pos2: "exp m0 + exp m1 \<noteq> 0"
    using exp_gt_zero [of m0] exp_gt_zero [of m1] by linarith
  have "exp l0 / (exp l0 + exp l1) = exp m0 / (exp m0 + exp m1)
        \<longleftrightarrow> exp l0 * (exp m0 + exp m1) = exp m0 * (exp l0 + exp l1)"
    using pos1 pos2 by (rule frac_eq_eq)
  also have "\<dots> \<longleftrightarrow> exp l0 * exp m1 = exp m0 * exp l1"
    by (simp add: algebra_simps)
  also have "\<dots> \<longleftrightarrow> exp (l0 + m1) = exp (m0 + l1)"
    by (simp add: exp_add)
  also have "\<dots> \<longleftrightarrow> l0 + m1 = m0 + l1"
    by simp
  also have "\<dots> \<longleftrightarrow> l0 - l1 = m0 - m1"
    by auto
  finally show ?thesis .
qed

lemma predict_nsp_swap:
  assumes "encode_pair lib s1 s2 = Inr a" and "nsp_forward lib a = Inr [[l0, l1]]"
    and "encode_pair lib s2 s1 = Inr b" and "nsp_forward lib b = Inr [[m0, m1]]"
  shows "\<exists>p q. predict_nsp lib s1 s2 = Inr p \<and> predict_nsp lib s2 s1 = Inr q \<and>
           (p = q \<longleftrightarrow> l0 - l1 = m0 - m1)"
proof -
  have p: "predict_nsp lib s1 s2 = Inr (exp l0 / (exp l0 + exp l1))"
    using assms(1,2) by (rule predict_nsp_two_logits)
  have q: "predict_nsp lib s2 s1 = Inr (exp m0 / (exp m0 + exp m1))"
    using assms(3,4) by (rule predict_nsp_two_logits)
  from p q first_softmax_component_eq_iff [of l0 l1 m0 m1] show ?thesis by blast
qed

section \<open>Exceptions of the libraries\<close>






section \<open>The metric callback\<close>

text \<open>
  The scan of \<open>argmax_from\<close>, with \<open>pre\<close> the part of the row already seen: the result is
  a position of the row that holds its maximum, and every earlier position holds a
  smaller value.
\<close>

lemma argmax_from_spec:
  assumes "bi < k" and "length pre = k" and "pre ! bi = best"
    and "\<forall>j<k. pre ! j \<le> best" and "\<forall>j<bi. pre ! j < best"
  shows "argmax_from xs k best bi < length (pre @ xs) \<and>
         (\<forall>j<length (pre @ xs). (pre @ xs) ! j \<le> (pre @ xs) ! argmax_from xs k best bi) \<and>
         (\<forall>j<argmax_from xs k best bi. (pre @ xs) ! j < (pre @ xs) ! argmax_from xs k best bi)"
  using assms
proof (induction xs arbitrary: k best bi pre)
  case Nil
  then show ?case by auto
next
  case (Cons x xs)
  show ?case
  proof (cases "best < x")
    case True
    have "argmax_from xs (k + 1) x k < length ((pre @ [x]) @ xs) \<and>
         (\<forall>j<length ((pre @ [x]) @ xs).
            ((pre @ [x]) @ xs) ! j \<le> ((pre @ [x]) @ xs) ! argmax_from xs (k + 1) x k) \<and>
         (\<forall>j<argmax_from xs (k + 1) x k.
            ((pre @ [x]) @ xs) ! j < ((pre @ [x]) @ xs) ! argmax_from xs (k + 1) x k)"
    proof (rule Cons.IH)
      show "k < k + 1" by simp
      show "length (pre @ [x]) = k + 1" using Cons.prems by simp
      show "(pre @ [x]) ! k = x" using Cons.prems by (simp add: nth_append)
      show "\<forall>j<k + 1. (pre @ [x]) ! j \<le> x"
        using Cons.prems True by (auto simp: nth_append less_Suc_eq)
      show "\<forall>j<k. (pre @ [x]) ! j < x"
        using Cons.prems True by (auto simp: nth_append)
    qed
    with True show ?thesis by simp
  next
    case False
    have "argmax_from xs (k + 1) best bi < length ((pre @ [x]) @ xs) \<and>
         (\<forall>j<length ((pre @ [x]) @ xs).
            ((pre @ [x]) @ xs) ! j \<le> ((pre @ [x]) @ xs) ! argmax_from xs (k + 1) best bi) \<and>
         (\<forall>j<argmax_from xs (k + 1) best bi.
            ((pre @ [x]) @ xs) ! j < ((pre @ [x]) @ xs) ! argmax_from xs (k + 1) best bi)"
    proof (rule Cons.IH)
      show "bi < k + 1" using Cons.prems by simp
      show "length (pre @ [x]) = k + 1" using Cons.prems by simp
      show "(pre @ [x]) ! bi = best" using Cons.prems by (simp add: nth_append)
      show "\<forall>j<k + 1. (pre @ [x]) ! j \<le> best"
        using Cons.prems False by (auto simp: nth_append less_Suc_eq)
      show "\<forall>j<bi. (pre @ [x]) ! j < best"
        using Cons.prems by (auto simp: nth_append)
    qed
    with False show ?thesis by simp
  qed
qed

lemma np_argmax_spec:
  assumes "row \<noteq> []"
  shows "\<exists>p. np_argmax row = Inr p \<and> p < length row \<and>
           (\<forall>j<length row. row ! j \<le> row ! p) \<and> (\<forall>j<p. row ! j < row ! p)"
proof -
  from assms obtain x xs where row: "row = x # xs" by (cases row) auto
  have "argmax_from xs 1 x 0 < length ([x] @ xs) \<and>
         (\<forall>j<length ([x] @ xs). ([x] @ xs) ! j \<le> ([x] @ xs) ! argmax_from xs 1 x 0) \<and>
         (\<forall>j<argmax_from xs 1 x 0. ([x] @ xs) ! j < ([x] @ xs) ! argmax_from xs 1 x 0)"
    by (rule argmax_from_spec) auto
  then show ?thesis by (simp add: row np_argmax_def)
qed

lemma argmax_rows_spec:
  assumes "[] \<notin> set logits"
  shows "\<exists>ps. argmax_rows logits = Inr ps \<and> length ps = length logits \<and>
           (\<forall>i<length logits. np_argmax (logits ! i) = Inr (ps ! i))"
  using assms
proof (induction logits)
  case Nil
  then show ?case by simp
next
  case (Cons row rows)
  then have "row \<noteq> []" by auto
  from np_argmax_spec [OF this] obtain p where p: "np_argmax row = Inr p" by blast
  from Cons obtain ps where ps: "argmax_rows rows = Inr ps" "length ps = length rows"
    "\<forall>i<length rows. np_argmax (rows ! i) = Inr (ps ! i)" by auto
  have "\<forall>i<length (row # rows). np_argmax ((row # rows) ! i) = Inr ((p # ps) ! i)"
    using p ps by (auto simp: nth_Cons split: nat.splits)
  with p ps show ?case by simp
qed

lemma accuracy_metric_range:
  assumes "accuracy_metric ps rs = Inr a"
  shows "0 \<le> a \<and> a \<le> 1"
proof -
  let ?m = "length (filter (\<lambda>(p, r). p = r) (zip ps rs))"
  from assms have len: "length ps = length rs" and ne: "rs \<noteq> []"
    and a: "a = real ?m / real (length rs)"
    by (auto simp: accuracy_metric_def split: if_splits)
  have "?m \<le> length (zip ps rs)" by (rule length_filter_le)
  with len have "?m \<le> length rs" by simp
  with ne show ?thesis by (simp add: a)
qed

text \<open>
  C6. For every non-empty array of logits with non-empty rows and as many labels as
  rows, \<open>compute_metrics\<close> returns a value: the predicted label of each row is the first
  position of the row's maximum (the argmax over the last axis), the accuracy is the
  number of rows whose predicted label equals the ground-truth label divided by the
  number of rows, and it lies between 0 and 1. The function is a function of its
  argument alone, so the result is deterministic.
\<close>

theorem C6_compute_metrics_accuracy:
  assumes "logits \<noteq> []" and "length labels = length logits" and "[] \<notin> set logits"
  shows "\<exists>ps a. argmax_rows logits = Inr ps \<and> length ps = length logits \<and>
           (\<forall>i<length logits. ps ! i < length (logits ! i) \<and>
              (\<forall>j<length (logits ! i). logits ! i ! j \<le> logits ! i ! (ps ! i)) \<and>
              (\<forall>j<ps ! i. logits ! i ! j < logits ! i ! (ps ! i))) \<and>
           compute_metrics (logits, labels) = Inr a \<and>
           a = real (card {i. i < length labels \<and> int (ps ! i) = labels ! i}) / real (length labels) \<and>
           0 \<le> a \<and> a \<le> 1"
proof -
  from argmax_rows_spec [OF assms(3)] obtain ps where
    ps: "argmax_rows logits = Inr ps" and len: "length ps = length logits" and
    each: "\<forall>i<length logits. np_argmax (logits ! i) = Inr (ps ! i)" by blast
  have spec: "\<forall>i<length logits. ps ! i < length (logits ! i) \<and>
              (\<forall>j<length (logits ! i). logits ! i ! j \<le> logits ! i ! (ps ! i)) \<and>
              (\<forall>j<ps ! i. logits ! i ! j < logits ! i ! (ps ! i))"
  proof (intro allI impI)
    fix i assume i: "i < length logits"
    then have "logits ! i \<noteq> []" using assms(3) by (metis nth_mem)
    from np_argmax_spec [OF this] each i show "ps ! i < length (logits ! i) \<and>
              (\<forall>j<length (logits ! i). logits ! i ! j \<le> logits ! i ! (ps ! i)) \<and>
              (\<forall>j<ps ! i. logits ! i ! j < logits ! i ! (ps ! i))" by auto
  qed
  let ?a = "real (length (filter (\<lambda>(p, r). p = r) (zip (map int ps) labels))) / real (length labels)"
  have ne: "labels \<noteq> []" using assms by auto
  have cm: "compute_metrics (logits, labels) = Inr ?a"
    using ps len assms(2) ne by (simp add: compute_metrics_def accuracy_metric_def)
  have "{i. i < length (zip (map int ps) labels) \<and>
            (case zip (map int ps) labels ! i of (p, r) \<Rightarrow> p = r)}
        = {i. i < length labels \<and> int (ps ! i) = labels ! i}"
    using len assms(2) by auto
  then have card: "length (filter (\<lambda>(p, r). p = r) (zip (map int ps) labels))
      = card {i. i < length labels \<and> int (ps ! i) = labels ! i}"
    by (simp add: length_filter_conv_card)
  have rng: "0 \<le> ?a \<and> ?a \<le> 1"
    using cm accuracy_metric_range [of "map int ps" labels ?a] ps
    by (simp add: compute_metrics_def)
  from ps len spec cm card rng show ?thesis by auto
qed

theorem C6_compute_metrics_accuracy_witness:
  "[[0, 1], [1, 0], [1, 1 :: real]] \<noteq> [] \<and>
   length [1, 1, 0 :: int] = length [[0, 1], [1, 0], [1, 1 :: real]] \<and>
   [] \<notin> set [[0, 1], [1, 0], [1, 1 :: real]] \<and>
   compute_metrics ([[0, 1], [1, 0], [1, 1]], [1, 1, 0]) = Inr (2 / 3) \<and>
   (\<exists>a. compute_metrics ([[0, 1], [1, 0], [1, 1]], [1, 1, 0]) = Inr a \<and> 0 \<le> a \<and> a \<le> 1)"
proof -
  have h1: "[[0, 1], [1, 0], [1, 1 :: real]] \<noteq> []" by simp
  have h2: "length [1, 1, 0 :: int] = length [[0, 1], [1, 0], [1, 1 :: real]]" by simp
  have h3: "[] \<notin> set [[0, 1], [1, 0], [1, 1 :: real]]" by simp
  from C6_compute_metrics_accuracy [OF h1 h2 h3]
  have ex: "\<exists>a. compute_metrics ([[0, 1], [1, 0], [1, 1]], [1, 1, 0]) = Inr a \<and> 0 \<le> a \<and> a \<le> 1"
    by blast
  have v: "compute_metrics ([[0, 1], [1, 0], [1, 1]], [1, 1, 0]) = Inr (2 / 3)"
    by (simp add: compute_metrics_def np_argmax_def accuracy_metric_def)
  from h1 h2 h3 v ex show ?thesis by blast
qed

section \<open>The tokenizer argument of \<open>vectorize_and_train\<close>\<close>





lemma tokenize_all_None: "tokenize_all None (x # X) = Inl TypeError"
  by simp


section \<open>The ranking that \<open>predict_word\<close> computes and drops\<close>

text \<open>
  \<open>predicted_inds\<close> lists every vocabulary index once, by descending logit. The function
  has the full ranking at hand when it reaches \<open>pass\<close>.
\<close>

lemma argsort_desc_length: "length (argsort_desc row) = length row"
  by (simp add: argsort_desc_def)

lemma argsort_desc_set: "set (argsort_desc row) = {0..<length row}"
proof -
  have m: "map snd (zip row [0..<length row]) = [0..<length row]"
    by (rule map_snd_zip) simp
  have "set (argsort_desc row) = snd ` set (sort_key (\<lambda>(v, i). - v) (zip row [0..<length row]))"
    by (simp only: argsort_desc_def set_map)
  also have "\<dots> = snd ` set (zip row [0..<length row])" by (simp only: set_sort)
  also have "\<dots> = set (map snd (zip row [0..<length row]))" by (simp only: set_map)
  also have "\<dots> = {0..<length row}" by (simp only: m set_upt)
  finally show ?thesis .
qed

lemma argsort_desc_sorted:
  "sorted (map (\<lambda>ind. - row ! ind) (argsort_desc row))"
proof -
  let ?ps = "sort_key (\<lambda>(v, i). - v) (zip row [0..<length row])"
  have "map (\<lambda>p. - row ! snd p) ?ps = map (\<lambda>(v, i). - v) ?ps"
    by (rule map_cong) (auto simp: in_set_zip)
  then have eq: "map (\<lambda>ind. - row ! ind) (argsort_desc row) = map (\<lambda>(v, i). - v) ?ps"
    by (simp add: argsort_desc_def comp_def)
  show ?thesis by (simp only: eq sorted_sort_key)
qed

end
